theory Spec2Isabelle
  imports Complex_Main "HOL-Library.Extended_Nat"
begin

section \<open>thaliPeerPoolOneAtATime.js: the peer action pool\<close>

text \<open>
  A shallow embedding of \<^verbatim>\<open>thali/NextGeneration/thaliPeerPool/thaliPeerPoolOneAtATime.js\<close>.
  JavaScript objects are records, the calls the pool makes on a peer action are recorded as
  a list of events, a thrown exception is the \<open>Inl\<close> of a sum, and every function returns
  the state it leaves behind (also when it throws, since JavaScript does not roll back).
  A leading underscore of a JavaScript name is dropped: \<open>startAction\<close> is
  \<^verbatim>\<open>_startAction\<close>, \<open>wifiEnqueue\<close> is \<^verbatim>\<open>_wifiEnqueue\<close>.
\<close>

subsection \<open>Values, errors and the connection agent\<close>

datatype js_error = JsError string | JsReferenceError string

text \<open>The options object handed to \<^verbatim>\<open>new ForeverAgent.SSL({...})\<close> (lines 83-91).\<close>

record agent_options =
  keepAlive :: bool
  keepAliveMsecs :: rat
  maxSockets :: enat
  maxFreeSockets :: nat
  ciphers :: string
  pskIdentity :: string
  pskKey :: string

text \<open>
  The JavaScript values this file handles. \<open>JPromise None\<close> is a promise that never
  settles, \<open>JPromise (Some v)\<close> one that is fulfilled with \<open>v\<close>; \<open>JOpaque x\<close> is the
  object a lexical variable \<open>x\<close> of the module holds.
\<close>

datatype js_value =
    Undefined
  | Null
  | JBool bool
  | JNumber int
  | JString string
  | JErr js_error
  | JAgent agent_options
  | JOpaque string
  | JPromise "js_value option"

text \<open>
  What the file reads from modules that are required but defined elsewhere:
  \<^verbatim>\<open>thaliConfig.TCP_TIMEOUT_WIFI\<close>, \<^verbatim>\<open>thaliConfig.SUPPORTED_PSK_CIPHERS\<close> and
  \<^verbatim>\<open>ThaliReplicationPeerAction.actionType\<close>. They are parameters of the model.
\<close>

record deps =
  TCP_TIMEOUT_WIFI :: rat
  SUPPORTED_PSK_CIPHERS :: string
  replicationActionType :: string

subsection \<open>Peer actions\<close>

text \<open>
  A peer action belongs to the caller. What its \<^verbatim>\<open>start(agent)\<close> does is not this file's
  business; the model only needs how the call ends: it throws at once, returns a promise
  that resolves, one that rejects, or one that never settles.
\<close>

datatype start_outcome =
    StartThrows js_error
  | StartResolves
  | StartRejects js_error
  | StartNeverSettles

text \<open>
  The \<^verbatim>\<open>kill\<close> property of an action: the action's own function, or the function that
  \<^verbatim>\<open>_wifiEnqueue\<close> assigns at lines 133-150, which closes over \<^verbatim>\<open>peerId\<close> and
  \<^verbatim>\<open>originalKill\<close> (and over \<^verbatim>\<open>self\<close>, the one pool of the model). The wrapper returns
  what \<^verbatim>\<open>originalKill\<close> returns, so whatever the \<^verbatim>\<open>kill\<close> property is, calling it returns
  what the action's own kill returns: the field \<open>killReturns\<close>.
\<close>

datatype killfn = OriginalKill | WifiKillWrapper string killfn

record peer_action =
  getId :: string
  getPeerIdentifier :: string
  getActionType :: string
  getPskIdentity :: string
  getPskKey :: string
  startOutcome :: start_outcome
  kill :: killfn
  killReturns :: js_value

subsection \<open>Events\<close>

text \<open>
  The observable calls, in the order they happen. \<open>KillInvoked\<close> is the execution of the
  action's own kill; \<open>StartSettled\<close> marks the moment the promise returned by start
  settles, so the events after it belong to the \<^verbatim>\<open>then\<close>/\<^verbatim>\<open>catch\<close> callbacks.
  A log event carries the pieces that the source concatenates.
\<close>

datatype event =
    AgentConstructed agent_options
  | StartInvoked string js_value
  | StartSettled string
  | KillInvoked string
  | ResolveCalled string
  | LogDebug "js_value list"
  | LogError "js_value list"

fun starts_of :: "event list \<Rightarrow> (string \<times> js_value) list" where
  "starts_of [] = []"
| "starts_of (StartInvoked i v # es) = (i, v) # starts_of es"
| "starts_of (e # es) = starts_of es"

fun kills_of :: "event list \<Rightarrow> string list" where
  "kills_of [] = []"
| "kills_of (KillInvoked i # es) = i # kills_of es"
| "kills_of (e # es) = kills_of es"

fun resolves_of :: "event list \<Rightarrow> string list" where
  "resolves_of [] = []"
| "resolves_of (ResolveCalled i # es) = i # resolves_of es"
| "resolves_of (e # es) = resolves_of es"

fun agents_of :: "event list \<Rightarrow> agent_options list" where
  "agents_of [] = []"
| "agents_of (AgentConstructed a # es) = a # agents_of es"
| "agents_of (e # es) = agents_of es"

fun settles_of :: "event list \<Rightarrow> string list" where
  "settles_of [] = []"
| "settles_of (StartSettled i # es) = i # settles_of es"
| "settles_of (e # es) = settles_of es"

subsection \<open>The pool\<close>

text \<open>
  The fields the constructor sets (lines 70-75). \<open>serialPromiseQueue\<close> holds the pending
  units of the promise queue; each unit is the function of lines 193-204, which closes
  over its \<open>peerAction\<close>, so a unit is represented by that action. \<open>wifiReplicationCount\<close>
  holds the own properties of the object \<^verbatim>\<open>{}\<close> that is used as a dictionary from peer
  identifier to count. \<open>super_state\<close> is whatever the base class
  \<^verbatim>\<open>ThaliPeerPoolInterface\<close> keeps.
\<close>

record 'b pool =
  stopped :: bool
  serialPromiseQueue :: "peer_action list"
  wifiReplicationCount :: "string \<rightharpoonup> int"
  super_state :: 'b

text \<open>
  The base class \<^verbatim>\<open>ThaliPeerPoolInterface\<close> is required from another file, so its
  constructor and its three methods are parameters. They act on the base class's own
  state; enqueue and start return or throw; stop may also kill actions it holds, which
  it reports as the list of the actions whose kill it calls.
\<close>

record 'b super_ops =
  super_init :: 'b
  super_enqueue :: "'b \<Rightarrow> peer_action \<Rightarrow> (js_error + js_value) \<times> 'b"
  super_start :: "'b \<Rightarrow> (js_error + js_value) \<times> 'b"
  super_stop :: "'b \<Rightarrow> (js_error + js_value) \<times> 'b \<times> peer_action list"

definition ThaliPeerPoolOneAtATime :: "'b super_ops \<Rightarrow> 'b pool" where
  "ThaliPeerPoolOneAtATime base =
     \<lparr>stopped = True, serialPromiseQueue = [], wifiReplicationCount = Map.empty,
      super_state = super_init base\<rparr>"

text \<open>
  The counts object is a plain \<^verbatim>\<open>{}\<close> (lines 74 and 224), so the read
  \<^verbatim>\<open>self._wifiReplicationCount[peerId]\<close> of lines 114 and 135 goes through the prototype
  chain: an own property gives its number; otherwise a name that \<^verbatim>\<open>Object.prototype\<close>
  defines gives the inherited member, which is no number; only a name found nowhere gives
  undefined. \<open>objectPrototype\<close> lists the property names of \<^verbatim>\<open>Object.prototype\<close>. The
  file assigns to a key only after it has read undefined, 0, 1 or 2 there, that is where
  the key is an own property or is not inherited, so an assignment is a plain update of
  the own properties; \<^verbatim>\<open>delete\<close> removes the own property.
\<close>

definition objectPrototype :: "string list" where
  "objectPrototype =
     [''constructor'', ''__defineGetter__'', ''__defineSetter__'', ''hasOwnProperty'',
      ''__lookupGetter__'', ''__lookupSetter__'', ''isPrototypeOf'', ''propertyIsEnumerable'',
      ''toString'', ''valueOf'', ''__proto__'', ''toLocaleString'']"

definition readCount :: "(string \<rightharpoonup> int) \<Rightarrow> string \<Rightarrow> js_value" where
  "readCount counts peerId =
     (case counts peerId of
        Some n \<Rightarrow> JNumber n
      | None \<Rightarrow> if peerId \<in> set objectPrototype then JOpaque peerId else Undefined)"

definition ENQUEUE_WHEN_STOPPED :: string where
  "ENQUEUE_WHEN_STOPPED = ''We are stopped''"

subsection \<open>Calling kill\<close>

text \<open>
  Calling an action's kill with the pool's counts: the counts it leaves and the events.
  The wrapper of lines 134-150 reads the count of its peer, deletes it at 1, stores 1 at 2
  and logs otherwise, then applies \<^verbatim>\<open>originalKill\<close>.
\<close>

fun invokeKill :: "killfn \<Rightarrow> string \<Rightarrow> (string \<rightharpoonup> int) \<Rightarrow> (string \<rightharpoonup> int) \<times> event list" where
  "invokeKill OriginalKill aid counts = (counts, [KillInvoked aid])"
| "invokeKill (WifiKillWrapper peerId originalKill) aid counts =
     (let count = readCount counts peerId
      in if count = JNumber 1 then
           invokeKill originalKill aid (counts(peerId := None))
         else if count = JNumber 2 then
           invokeKill originalKill aid (counts(peerId \<mapsto> 1))
         else
           (case invokeKill originalKill aid counts of
              (counts', evs) \<Rightarrow>
                (counts', LogError [JString ''Count had to be 1 or 2 - '', count] # evs)))"

subsection \<open>\<^verbatim>\<open>_startAction\<close> (lines 82-102)\<close>

definition createAgent :: "deps \<Rightarrow> peer_action \<Rightarrow> agent_options" where
  "createAgent d peerAction =
     \<lparr>keepAlive = True,
      keepAliveMsecs = TCP_TIMEOUT_WIFI d / 2,
      maxSockets = \<infinity>,
      maxFreeSockets = 256,
      ciphers = SUPPORTED_PSK_CIPHERS d,
      pskIdentity = getPskIdentity peerAction,
      pskKey = getPskKey peerAction\<rparr>"

definition startAction :: "deps \<Rightarrow> peer_action \<Rightarrow> (js_error + js_value) \<times> event list" where
  "startAction d peerAction =
     (let actionAgent = createAgent d peerAction;
          called = [AgentConstructed actionAgent,
                    StartInvoked (getId peerAction) (JAgent actionAgent)]
      in case startOutcome peerAction of
           StartThrows e \<Rightarrow> (Inl e, called)
         | StartNeverSettles \<Rightarrow> (Inr (JPromise None), called)
         | StartResolves \<Rightarrow>
             (Inr (JPromise (Some Null)),
              called @ [StartSettled (getId peerAction),
                        LogDebug [JString ''action returned successfully from start'']])
         | StartRejects err \<Rightarrow>
             (Inr (JPromise (Some Null)),
              called @ [StartSettled (getId peerAction),
                        LogDebug [JString ''action returned with error from start'', JErr err]]))"

subsection \<open>\<^verbatim>\<open>_wifiEnqueue\<close> (lines 106-153)\<close>

definition wifiEnqueue ::
  "deps \<Rightarrow> 'b pool \<Rightarrow> peer_action \<Rightarrow> (js_error + js_value) \<times> 'b pool \<times> peer_action \<times> event list" where
  "wifiEnqueue d self peerAction =
     (if getActionType peerAction \<noteq> replicationActionType d then
        (case startAction d peerAction of (r, evs) \<Rightarrow> (r, self, peerAction, evs))
      else
        let peerId = getPeerIdentifier peerAction;
            count = readCount (wifiReplicationCount self) peerId
        in if count = JNumber 2 then
             (case invokeKill (kill peerAction) (getId peerAction) (wifiReplicationCount self) of
                (counts', evs) \<Rightarrow>
                  (Inr (killReturns peerAction), self\<lparr>wifiReplicationCount := counts'\<rparr>,
                   peerAction, evs))
           else
             let (self1, logged) =
                   (if count = Undefined \<or> count = JNumber 0 then
                      (self\<lparr>wifiReplicationCount := (wifiReplicationCount self)(peerId \<mapsto> 1)\<rparr>, [])
                    else if count = JNumber 1 then
                      (self\<lparr>wifiReplicationCount := (wifiReplicationCount self)(peerId \<mapsto> 2)\<rparr>, [])
                    else
                      (self, [LogError [JString ''We got an illegal count: '', count]]));
                 wrapped = peerAction\<lparr>kill := WifiKillWrapper peerId (kill peerAction)\<rparr>
             in case startAction d wrapped of
                  (r, evs) \<Rightarrow> (r, self1, wrapped, logged @ evs))"

subsection \<open>\<^verbatim>\<open>enqueue\<close> (lines 179-208)\<close>

text \<open>
  The scopes that enclose the function of lines 193-204, innermost first: its own
  parameters, the variables of \<^verbatim>\<open>enqueue\<close>, the variables declared at the top of the
  module. An identifier found in none of them is looked up in the global object, a
  parameter of the model; in strict mode an identifier found nowhere raises a
  ReferenceError.
\<close>

definition enqueue_scope_chain :: "string list list" where
  "enqueue_scope_chain =
     [[''resolve'', ''reject''],
      [''peerAction'', ''result''],
      [''util'', ''ThaliPeerPoolInterface'', ''thaliConfig'', ''ForeverAgent'', ''logger'',
       ''Utils'', ''Promise'', ''PromiseQueue'', ''ThaliReplicationPeerAction'', ''assert'',
       ''ThaliPeerPoolOneAtATime'']]"

definition resolveIdentifier :: "(string \<rightharpoonup> js_value) \<Rightarrow> string \<Rightarrow> js_value option" where
  "resolveIdentifier globals x =
     (if x \<in> set (concat enqueue_scope_chain) then Some (JOpaque x) else globals x)"

datatype unit_outcome = UnitResolved | UnitThrew js_error | UnitPending

text \<open>
  The function handed to the promise queue at lines 193-204, run with the pool's counts
  (kill may be the wrapper above). The argument \<^verbatim>\<open>actionAgent\<close> is evaluated before start
  is called. A rejection of start is caught and logged, and the \<^verbatim>\<open>then\<close> that follows
  logs, calls kill and calls \<^verbatim>\<open>resolve(true)\<close>.
\<close>

definition serialUnit ::
  "(string \<rightharpoonup> js_value) \<Rightarrow> peer_action \<Rightarrow> (string \<rightharpoonup> int) \<Rightarrow>
     unit_outcome \<times> (string \<rightharpoonup> int) \<times> event list" where
  "serialUnit globals peerAction counts =
     (let aid = getId peerAction;
          begun = [LogDebug [JString aid, JString '' - Peer Action Started'']]
      in case resolveIdentifier globals ''actionAgent'' of
           None \<Rightarrow> (UnitThrew (JsReferenceError ''actionAgent''), counts, begun)
         | Some actionAgent \<Rightarrow>
             (case startOutcome peerAction of
                StartThrows e \<Rightarrow> (UnitThrew e, counts, begun @ [StartInvoked aid actionAgent])
              | StartNeverSettles \<Rightarrow> (UnitPending, counts, begun @ [StartInvoked aid actionAgent])
              | StartResolves \<Rightarrow>
                  (case invokeKill (kill peerAction) aid counts of
                     (counts', kevs) \<Rightarrow>
                       (UnitResolved, counts',
                        begun @ [StartInvoked aid actionAgent, StartSettled aid,
                                 LogDebug [JString aid, JString '' - Peer Action Stopped'']]
                          @ kevs @ [ResolveCalled aid]))
              | StartRejects err \<Rightarrow>
                  (case invokeKill (kill peerAction) aid counts of
                     (counts', kevs) \<Rightarrow>
                       (UnitResolved, counts',
                        begun @ [StartInvoked aid actionAgent, StartSettled aid,
                                 LogDebug [JString ''Got err '', JErr err],
                                 LogDebug [JString aid, JString '' - Peer Action Stopped'']]
                          @ kevs @ [ResolveCalled aid]))))"

definition enqueue :: "'b super_ops \<Rightarrow> 'b pool \<Rightarrow> peer_action \<Rightarrow> (js_error + js_value) \<times> 'b pool" where
  "enqueue base self peerAction =
     (if stopped self then (Inl (JsError ENQUEUE_WHEN_STOPPED), self)
      else
        (case super_enqueue base (super_state self) peerAction of
           (Inl e, b) \<Rightarrow> (Inl e, self\<lparr>super_state := b\<rparr>)
         | (Inr result, b) \<Rightarrow>
             (Inr result,
              self\<lparr>super_state := b,
                   serialPromiseQueue := serialPromiseQueue self @ [peerAction]\<rparr>)))"

subsection \<open>The promise queue\<close>

text \<open>
  What the lane does with a unit that throws before it has called resolve or reject:
  the throw counts as the unit's rejection and the lane moves on, or the lane waits for
  ever. The spec does not say, so both are covered.
\<close>

datatype throw_policy = ThrowRejectsUnit | ThrowStallsLane

text \<open>
  Modelled from the spec: the class \<^verbatim>\<open>PromiseQueue\<close> (\<^verbatim>\<open>../promiseQueue\<close>) is required
  from another file. The spec's Serial Lane is "an ordered sequence of pending execution
  closures; at most one runs at a time; FIFO order preserved; no entry is skipped or
  reordered", and "each submitted unit runs to completion before the next starts". So
  the units run from the front; the next one runs once the current one has called
  resolve; a unit whose promise never settles keeps the lane, and the units behind it
  stay queued.
\<close>

fun runUnits ::
  "throw_policy \<Rightarrow> (string \<rightharpoonup> js_value) \<Rightarrow> peer_action list \<Rightarrow> (string \<rightharpoonup> int) \<Rightarrow>
     peer_action list \<times> (string \<rightharpoonup> int) \<times> event list" where
  "runUnits pol globals [] counts = ([], counts, [])"
| "runUnits pol globals (a # rest) counts =
     (case serialUnit globals a counts of
        (UnitResolved, counts', evs) \<Rightarrow>
          (case runUnits pol globals rest counts' of
             (q, counts'', evs') \<Rightarrow> (q, counts'', evs @ evs'))
      | (UnitPending, counts', evs) \<Rightarrow> (a # rest, counts', evs)
      | (UnitThrew e, counts', evs) \<Rightarrow>
          (if pol = ThrowRejectsUnit then
             (case runUnits pol globals rest counts' of
                (q, counts'', evs') \<Rightarrow> (q, counts'', evs @ evs'))
           else (a # rest, counts', evs)))"

text \<open>
  Modelled from the spec: the promise queue of the pool, run until it is empty or stuck,
  with the pool's counts (a unit's kill may be the wrapper of \<^verbatim>\<open>_wifiEnqueue\<close>).
\<close>

definition runSerialPromiseQueue ::
  "throw_policy \<Rightarrow> (string \<rightharpoonup> js_value) \<Rightarrow> 'b pool \<Rightarrow> 'b pool \<times> event list" where
  "runSerialPromiseQueue pol globals self =
     (case runUnits pol globals (serialPromiseQueue self) (wifiReplicationCount self) of
        (q, counts, evs) \<Rightarrow>
          (self\<lparr>serialPromiseQueue := q, wifiReplicationCount := counts\<rparr>, evs))"

subsection \<open>\<^verbatim>\<open>start\<close> and \<^verbatim>\<open>stop\<close> (lines 210-226)\<close>

definition start :: "'b super_ops \<Rightarrow> 'b pool \<Rightarrow> (js_error + js_value) \<times> 'b pool" where
  "start base self =
     (let self1 = self\<lparr>stopped := False\<rparr>
      in case super_start base (super_state self1) of
           (r, b) \<Rightarrow> (r, self1\<lparr>super_state := b\<rparr>))"

text \<open>Calling the kill of each action of a list, in order, with the pool's counts.\<close>

fun killAll :: "peer_action list \<Rightarrow> (string \<rightharpoonup> int) \<Rightarrow> (string \<rightharpoonup> int) \<times> event list" where
  "killAll [] counts = (counts, [])"
| "killAll (a # as) counts =
     (case invokeKill (kill a) (getId a) counts of
        (counts', evs) \<Rightarrow>
          (case killAll as counts' of (counts'', evs') \<Rightarrow> (counts'', evs @ evs')))"

definition stop :: "'b super_ops \<Rightarrow> 'b pool \<Rightarrow> (js_error + js_value) \<times> 'b pool \<times> event list" where
  "stop base self =
     (let self1 = self\<lparr>stopped := True, wifiReplicationCount := Map.empty\<rparr>
      in case super_stop base (super_state self1) of
           (r, b, killed) \<Rightarrow>
             (case killAll killed (wifiReplicationCount self1) of
                (counts, evs) \<Rightarrow>
                  (r, self1\<lparr>super_state := b, wifiReplicationCount := counts\<rparr>, evs)))"

subsection \<open>Projections used to state the lane's order\<close>

text \<open>The start and kill calls of a trace, in order, and the outcomes of start that settle.\<close>

fun lifecycle_of :: "event list \<Rightarrow> event list" where
  "lifecycle_of [] = []"
| "lifecycle_of (StartInvoked i v # es) = StartInvoked i v # lifecycle_of es"
| "lifecycle_of (KillInvoked i # es) = KillInvoked i # lifecycle_of es"
| "lifecycle_of (e # es) = lifecycle_of es"

fun settling :: "start_outcome \<Rightarrow> bool" where
  "settling StartResolves = True"
| "settling (StartRejects e) = True"
| "settling (StartThrows e) = False"
| "settling StartNeverSettles = False"

subsection \<open>Concrete inputs\<close>

text \<open>
  Inputs at which the theorems below are instantiated: a configuration, actions whose
  kill is still their own, a base class that accepts everything and keeps nothing, and
  a running pool built by the constructor and \<open>start\<close>.
\<close>

definition exampleDeps :: deps where
  "exampleDeps = \<lparr>TCP_TIMEOUT_WIFI = 10000, SUPPORTED_PSK_CIPHERS = ''PSK-AES256-CBC-SHA'',
                   replicationActionType = ''ReplicationAction''\<rparr>"

definition exampleAction :: "string \<Rightarrow> string \<Rightarrow> string \<Rightarrow> start_outcome \<Rightarrow> peer_action" where
  "exampleAction aid peer ty outcome =
     \<lparr>getId = aid, getPeerIdentifier = peer, getActionType = ty,
      getPskIdentity = ''beacons'', getPskKey = ''secret'', startOutcome = outcome,
      kill = OriginalKill, killReturns = Undefined\<rparr>"

definition plainSuper :: "unit super_ops" where
  "plainSuper =
     \<lparr>super_init = (),
      super_enqueue = (\<lambda>b a. (Inr Null, b)),
      super_start = (\<lambda>b. (Inr Undefined, b)),
      super_stop = (\<lambda>b. (Inr Undefined, b, []))\<rparr>"

text \<open>A global object that has the usual properties of the runtime and no \<^verbatim>\<open>actionAgent\<close>.\<close>

definition exampleGlobals :: "string \<rightharpoonup> js_value" where
  "exampleGlobals =
     [''process'' \<mapsto> JOpaque ''process'', ''console'' \<mapsto> JOpaque ''console'']"

definition exampleRunningPool :: "unit pool" where
  "exampleRunningPool = snd (start plainSuper (ThaliPeerPoolOneAtATime plainSuper))"

definition replicationA1 :: peer_action where
  "replicationA1 = exampleAction ''a1'' ''p1'' ''ReplicationAction'' StartResolves"

definition replicationA2 :: peer_action where
  "replicationA2 =
     exampleAction ''a2'' ''p1'' ''ReplicationAction'' (StartRejects (JsError ''timeout''))"


definition notificationN1 :: peer_action where
  "notificationN1 = exampleAction ''n1'' ''p2'' ''NotificationAction'' StartResolves"

definition throwingT1 :: peer_action where
  "throwingT1 =
     exampleAction ''t1'' ''p3'' ''NotificationAction'' (StartThrows (JsError ''no radio''))"

text \<open>A running pool to which three actions were submitted, in the order a1, n1, a2.\<close>

definition examplePoolABC :: "unit pool" where
  "examplePoolABC =
     snd (enqueue plainSuper
       (snd (enqueue plainSuper
         (snd (enqueue plainSuper exampleRunningPool replicationA1)) notificationN1))
       replicationA2)"



text \<open>Three replication actions of a peer that is called like an inherited property.\<close>

definition inheritedB1 :: peer_action where
  "inheritedB1 = exampleAction ''b1'' ''constructor'' ''ReplicationAction'' StartResolves"

definition inheritedB2 :: peer_action where
  "inheritedB2 = exampleAction ''b2'' ''constructor'' ''ReplicationAction'' StartResolves"

definition inheritedB3 :: peer_action where
  "inheritedB3 = exampleAction ''b3'' ''constructor'' ''ReplicationAction'' StartResolves"

section \<open>Properties\<close>

subsection \<open>Traces\<close>

lemmas example_defs =
  exampleDeps_def exampleAction_def plainSuper_def exampleRunningPool_def
  replicationA1_def replicationA2_def notificationN1_def
  ThaliPeerPoolOneAtATime_def start_def enqueue_def

lemma readCount_number [simp]: "readCount c P = JNumber n \<longleftrightarrow> c P = Some n"
  by (simp add: readCount_def split: option.splits)

lemma readCount_undefined:
  "readCount c P = Undefined \<longleftrightarrow> c P = None \<and> P \<notin> set objectPrototype"
  by (simp add: readCount_def split: option.splits)

lemma readCount_absent: "c P = None \<Longrightarrow> P \<notin> set objectPrototype \<Longrightarrow> readCount c P = Undefined"
  by (simp add: readCount_def)

lemma starts_of_append: "starts_of (xs @ ys) = starts_of xs @ starts_of ys"
  by (induction xs rule: starts_of.induct) simp_all

lemma kills_of_append: "kills_of (xs @ ys) = kills_of xs @ kills_of ys"
  by (induction xs rule: kills_of.induct) simp_all

lemma resolves_of_append: "resolves_of (xs @ ys) = resolves_of xs @ resolves_of ys"
  by (induction xs rule: resolves_of.induct) simp_all

lemma agents_of_append: "agents_of (xs @ ys) = agents_of xs @ agents_of ys"
  by (induction xs rule: agents_of.induct) simp_all

lemma settles_of_append: "settles_of (xs @ ys) = settles_of xs @ settles_of ys"
  by (induction xs rule: settles_of.induct) simp_all

lemma invokeKill_kills: "kills_of (snd (invokeKill k aid c)) = [aid]"
  by (induction k arbitrary: c) (simp_all add: split_beta Let_def)

lemma invokeKill_starts: "starts_of (snd (invokeKill k aid c)) = []"
  by (induction k arbitrary: c) (simp_all add: split_beta Let_def)

lemma invokeKill_agents: "agents_of (snd (invokeKill k aid c)) = []"
  by (induction k arbitrary: c) (simp_all add: split_beta Let_def)

lemma invokeKill_empty: "fst (invokeKill k aid Map.empty) = Map.empty"
  by (induction k) (simp_all add: split_beta Let_def)

lemma killAll_empty: "fst (killAll as Map.empty) = Map.empty"
proof (induction as)
  case Nil
  show ?case by simp
next
  case (Cons a as)
  have "fst (invokeKill (kill a) (getId a) Map.empty) = Map.empty"
    by (rule invokeKill_empty)
  with Cons show ?case
    by (simp add: split_beta)
qed

lemma killAll_kills: "kills_of (snd (killAll as c)) = map getId as"
  by (induction as arbitrary: c) (simp_all add: split_beta kills_of_append invokeKill_kills)

lemma startAction_starts:
  "starts_of (snd (startAction d a)) = [(getId a, JAgent (createAgent d a))]"
  by (cases "startOutcome a") (simp_all add: startAction_def Let_def)

lemma startAction_kills: "kills_of (snd (startAction d a)) = []"
  by (cases "startOutcome a") (simp_all add: startAction_def Let_def)

lemma startAction_agents: "agents_of (snd (startAction d a)) = [createAgent d a]"
  by (cases "startOutcome a") (simp_all add: startAction_def Let_def)

lemma createAgent_kill_update [simp]:
  "createAgent d (a\<lparr>kill := k\<rparr>) = createAgent d a"
  by (simp add: createAgent_def)

lemma serialUnit_unbound:
  assumes "globals ''actionAgent'' = None"
  shows "serialUnit globals a c =
           (UnitThrew (JsReferenceError ''actionAgent''), c,
            [LogDebug [JString (getId a), JString '' - Peer Action Started'']])"
  using assms by (simp add: serialUnit_def resolveIdentifier_def enqueue_scope_chain_def)

lemma runUnits_unbound:
  assumes "globals ''actionAgent'' = None"
  shows "starts_of (snd (snd (runUnits pol globals q c))) = []
       \<and> kills_of (snd (snd (runUnits pol globals q c))) = []
       \<and> resolves_of (snd (snd (runUnits pol globals q c))) = []
       \<and> agents_of (snd (snd (runUnits pol globals q c))) = []
       \<and> settles_of (snd (snd (runUnits pol globals q c))) = []
       \<and> fst (snd (runUnits pol globals q c)) = c"
proof (induction q arbitrary: c)
  case Nil
  show ?case by simp
next
  case (Cons a q)
  show ?case
    using Cons.IH [of c]
    by (cases pol) (simp_all add: serialUnit_unbound [of globals, OF assms] split_beta)
qed


lemma wifiEnqueue_admit:
  assumes "getActionType a = replicationActionType d"
      and "wifiReplicationCount s (getPeerIdentifier a) \<noteq> Some 2"
  shows "wifiEnqueue d s a =
           (fst (startAction d (a\<lparr>kill := WifiKillWrapper (getPeerIdentifier a) (kill a)\<rparr>)),
            (if readCount (wifiReplicationCount s) (getPeerIdentifier a) = Undefined
                \<or> wifiReplicationCount s (getPeerIdentifier a) = Some 0
             then s\<lparr>wifiReplicationCount := (wifiReplicationCount s)(getPeerIdentifier a \<mapsto> 1)\<rparr>
             else if wifiReplicationCount s (getPeerIdentifier a) = Some 1
             then s\<lparr>wifiReplicationCount := (wifiReplicationCount s)(getPeerIdentifier a \<mapsto> 2)\<rparr>
             else s),
            a\<lparr>kill := WifiKillWrapper (getPeerIdentifier a) (kill a)\<rparr>,
            (if readCount (wifiReplicationCount s) (getPeerIdentifier a) = Undefined
                \<or> wifiReplicationCount s (getPeerIdentifier a) = Some 0
                \<or> wifiReplicationCount s (getPeerIdentifier a) = Some 1
             then []
             else [LogError [JString ''We got an illegal count: '',
                     readCount (wifiReplicationCount s) (getPeerIdentifier a)]])
              @ snd (startAction d (a\<lparr>kill := WifiKillWrapper (getPeerIdentifier a) (kill a)\<rparr>)))"
  using assms by (simp add: wifiEnqueue_def Let_def split_beta)

lemma wifiEnqueue_reject:
  assumes "getActionType a = replicationActionType d"
      and "wifiReplicationCount s (getPeerIdentifier a) = Some 2"
  shows "wifiEnqueue d s a =
           (Inr (killReturns a),
            s\<lparr>wifiReplicationCount :=
                 fst (invokeKill (kill a) (getId a) (wifiReplicationCount s))\<rparr>,
            a,
            snd (invokeKill (kill a) (getId a) (wifiReplicationCount s)))"
  using assms by (simp add: wifiEnqueue_def Let_def split_beta)

lemma wifiEnqueue_other:
  assumes "getActionType a \<noteq> replicationActionType d"
  shows "wifiEnqueue d s a = (fst (startAction d a), s, a, snd (startAction d a))"
  using assms by (simp add: wifiEnqueue_def split_beta)

lemma startAction_kill_update:
  "startAction d (a\<lparr>kill := k\<rparr>) = startAction d a"
  by (cases "startOutcome a") (simp_all add: startAction_def Let_def)

subsection \<open>The replication counter\<close>



text \<open>
  Where the peer identifier is the name of an inherited property and no count was stored
  for it, the count that the code reads is the inherited member, neither absent nor a
  number: the switch of lines 115-131 takes its default branch every time. On a pool
  that was just started, three replication actions of the peer called 'constructor' are
  all started, none is killed and no count is ever stored.
\<close>

lemma wifiEnqueue_inherited_peer_name:
  "readCount (wifiReplicationCount exampleRunningPool) ''constructor'' = JOpaque ''constructor''
 \<and> (case wifiEnqueue exampleDeps exampleRunningPool inheritedB1 of (r1, s1, a1', e1) \<Rightarrow>
     case wifiEnqueue exampleDeps s1 inheritedB2 of (r2, s2, a2', e2) \<Rightarrow>
     case wifiEnqueue exampleDeps s2 inheritedB3 of (r3, s3, a3', e3) \<Rightarrow>
       map fst (starts_of (e1 @ e2 @ e3)) = [''b1'', ''b2'', ''b3'']
     \<and> kills_of (e1 @ e2 @ e3) = []
     \<and> wifiReplicationCount s3 ''constructor'' = None
     \<and> hd e3 = LogError [JString ''We got an illegal count: '', JOpaque ''constructor''])"
  by (simp add: example_defs inheritedB1_def inheritedB2_def inheritedB3_def wifiEnqueue_def
      startAction_def readCount_def objectPrototype_def Let_def)

text \<open>
  Claim C3. When \<^verbatim>\<open>_wifiEnqueue\<close> admits a replication action that was not admitted before
  (the count of its peer is not 2, its kill is its own), the action's kill becomes the
  wrapper around its own kill. Calling the new kill where the peer's count is 1 deletes
  the count, calling it where the count is 2 leaves the count 1, and both times the
  action's own kill runs, once. Called right after the admission it gives back the counts
  from before the admission. The admitted action is started.
\<close>

theorem wifi_kill_wrapper_decrements:
  assumes "getActionType a = replicationActionType d"
      and "wifiReplicationCount s (getPeerIdentifier a) \<noteq> Some 2"
      and "kill a = OriginalKill"
  shows "case wifiEnqueue d s a of (r, s', a', evs) \<Rightarrow>
           kill a' = WifiKillWrapper (getPeerIdentifier a) (kill a)
         \<and> invokeKill (kill a') aid (c(getPeerIdentifier a \<mapsto> 1))
             = (c(getPeerIdentifier a := None), [KillInvoked aid])
         \<and> invokeKill (kill a') aid (c(getPeerIdentifier a \<mapsto> 2))
             = (c(getPeerIdentifier a \<mapsto> 1), [KillInvoked aid])
         \<and> fst (invokeKill (kill a') (getId a) (wifiReplicationCount s'))
             = (if readCount (wifiReplicationCount s) (getPeerIdentifier a) = Undefined
                   \<or> wifiReplicationCount s (getPeerIdentifier a) = Some 0
                then (wifiReplicationCount s)(getPeerIdentifier a := None)
                else wifiReplicationCount s)
         \<and> kills_of (snd (invokeKill (kill a') (getId a) (wifiReplicationCount s'))) = [getId a]
         \<and> killReturns a' = killReturns a
         \<and> starts_of evs = [(getId a, JAgent (createAgent d a))]"
proof -
  have restore: "(wifiReplicationCount s)(getPeerIdentifier a \<mapsto> 1) = wifiReplicationCount s"
    if "wifiReplicationCount s (getPeerIdentifier a) = Some 1"
    using that by (auto simp: fun_eq_iff)
  show ?thesis
    unfolding wifiEnqueue_admit [OF assms(1,2)]
    using assms(2,3) restore
    by (auto simp: Let_def startAction_starts starts_of_append split_beta readCount_undefined
        readCount_def split: option.splits)
qed

text \<open>Claim C3 at the action a1, on a pool that was just started.\<close>

theorem wifi_kill_wrapper_decrements_witness:
  "getActionType replicationA1 = replicationActionType exampleDeps
 \<and> wifiReplicationCount exampleRunningPool (getPeerIdentifier replicationA1) \<noteq> Some 2
 \<and> kill replicationA1 = OriginalKill
 \<and> (case wifiEnqueue exampleDeps exampleRunningPool replicationA1 of (r, s', a', evs) \<Rightarrow>
           kill a' = WifiKillWrapper (getPeerIdentifier replicationA1) (kill replicationA1)
         \<and> invokeKill (kill a') ''a1'' (Map.empty(getPeerIdentifier replicationA1 \<mapsto> 1))
             = (Map.empty(getPeerIdentifier replicationA1 := None), [KillInvoked ''a1''])
         \<and> invokeKill (kill a') ''a1'' (Map.empty(getPeerIdentifier replicationA1 \<mapsto> 2))
             = (Map.empty(getPeerIdentifier replicationA1 \<mapsto> 1), [KillInvoked ''a1''])
         \<and> fst (invokeKill (kill a') (getId replicationA1) (wifiReplicationCount s'))
             = (if readCount (wifiReplicationCount exampleRunningPool)
                     (getPeerIdentifier replicationA1) = Undefined
                   \<or> wifiReplicationCount exampleRunningPool (getPeerIdentifier replicationA1)
                       = Some 0
                then (wifiReplicationCount exampleRunningPool)
                       (getPeerIdentifier replicationA1 := None)
                else wifiReplicationCount exampleRunningPool)
         \<and> kills_of (snd (invokeKill (kill a') (getId replicationA1) (wifiReplicationCount s')))
             = [getId replicationA1]
         \<and> killReturns a' = killReturns replicationA1
         \<and> starts_of evs = [(getId replicationA1, JAgent (createAgent exampleDeps replicationA1))])"
proof -
  have h1: "getActionType replicationA1 = replicationActionType exampleDeps"
    by (simp add: example_defs)
  have h2: "wifiReplicationCount exampleRunningPool (getPeerIdentifier replicationA1) \<noteq> Some 2"
    by (simp add: example_defs)
  have h3: "kill replicationA1 = OriginalKill"
    by (simp add: example_defs)
  note concl = wifi_kill_wrapper_decrements [OF h1 h2 h3, of "''a1''" Map.empty]
  show ?thesis
    by (intro conjI h1 h2 h3 concl)
qed

text \<open>
  Whatever kill the action had before, the wrapper applies it after the count has been
  decremented: the wrapper decorates that kill and does not replace it.
\<close>

lemma wrapper_applies_previous_kill:
  "invokeKill (WifiKillWrapper P k) aid (c(P \<mapsto> 1)) = invokeKill k aid (c(P := None))
 \<and> invokeKill (WifiKillWrapper P k) aid (c(P \<mapsto> 2)) = invokeKill k aid (c(P \<mapsto> 1))
 \<and> kills_of (snd (invokeKill (WifiKillWrapper P k) aid c)) = [aid]"
proof (intro conjI)
  show "invokeKill (WifiKillWrapper P k) aid (c(P \<mapsto> 1)) = invokeKill k aid (c(P := None))"
    by (simp add: Let_def)
  show "invokeKill (WifiKillWrapper P k) aid (c(P \<mapsto> 2)) = invokeKill k aid (c(P \<mapsto> 1))"
    by (simp add: Let_def)
  show "kills_of (snd (invokeKill (WifiKillWrapper P k) aid c)) = [aid]"
    by (rule invokeKill_kills)
qed

subsection \<open>The stopped flag\<close>

text \<open>
  Claim C4. A pool fresh from the constructor is stopped. \<open>enqueue\<close> on it, and on any
  pool whose flag is set, throws the error 'We are stopped' and leaves the pool as it
  was: nothing is appended to the promise queue, so running the queue of the fresh pool
  afterwards calls nothing, in particular not the action's start. After \<open>start\<close> the flag
  is clear and \<open>enqueue\<close> ends the way the inherited enqueue ends; so, unless the
  inherited enqueue throws that very error, \<open>enqueue\<close> does not throw it.
\<close>

theorem enqueue_when_stopped_throws:
  assumes "fst (super_enqueue base (super_state (snd (start base s))) a)
             \<noteq> Inl (JsError ENQUEUE_WHEN_STOPPED)"
  shows "stopped (ThaliPeerPoolOneAtATime base)
       \<and> enqueue base (ThaliPeerPoolOneAtATime base) a
           = (Inl (JsError ''We are stopped''), ThaliPeerPoolOneAtATime base)
       \<and> runSerialPromiseQueue pol globals (snd (enqueue base (ThaliPeerPoolOneAtATime base) a))
           = (ThaliPeerPoolOneAtATime base, [])
       \<and> enqueue base (s\<lparr>stopped := True\<rparr>) a
           = (Inl (JsError ''We are stopped''), s\<lparr>stopped := True\<rparr>)
       \<and> \<not> stopped (snd (start base s))
       \<and> fst (enqueue base (snd (start base s)) a)
           = fst (super_enqueue base (super_state (snd (start base s))) a)
       \<and> fst (enqueue base (snd (start base s)) a) \<noteq> Inl (JsError ''We are stopped'')"
proof -
  have init: "stopped (ThaliPeerPoolOneAtATime base)"
    by (simp add: ThaliPeerPoolOneAtATime_def)
  have thrown: "enqueue base (ThaliPeerPoolOneAtATime base) a
      = (Inl (JsError ''We are stopped''), ThaliPeerPoolOneAtATime base)"
    using init by (simp add: enqueue_def ENQUEUE_WHEN_STOPPED_def)
  have idle: "runSerialPromiseQueue pol globals (ThaliPeerPoolOneAtATime base)
      = (ThaliPeerPoolOneAtATime base, [])"
    by (simp add: runSerialPromiseQueue_def ThaliPeerPoolOneAtATime_def)
  have any: "enqueue base (s\<lparr>stopped := True\<rparr>) a
      = (Inl (JsError ''We are stopped''), s\<lparr>stopped := True\<rparr>)"
    by (simp add: enqueue_def ENQUEUE_WHEN_STOPPED_def)
  have running: "\<not> stopped (snd (start base s))"
    by (simp add: start_def Let_def split_beta)
  have same: "fst (enqueue base (snd (start base s)) a)
      = fst (super_enqueue base (super_state (snd (start base s))) a)"
    using running by (simp add: enqueue_def split: prod.splits sum.splits)
  show ?thesis
    using init thrown idle any running same assms
    by (simp add: ENQUEUE_WHEN_STOPPED_def)
qed

text \<open>Claim C4 at the action a1 and the base class that accepts everything.\<close>

theorem enqueue_when_stopped_throws_witness:
  "fst (super_enqueue plainSuper (super_state (snd (start plainSuper exampleRunningPool))) replicationA1)
             \<noteq> Inl (JsError ENQUEUE_WHEN_STOPPED)
  \<and> (stopped (ThaliPeerPoolOneAtATime plainSuper)
       \<and> enqueue plainSuper (ThaliPeerPoolOneAtATime plainSuper) replicationA1
           = (Inl (JsError ''We are stopped''), ThaliPeerPoolOneAtATime plainSuper)
       \<and> runSerialPromiseQueue ThrowStallsLane Map.empty
            (snd (enqueue plainSuper (ThaliPeerPoolOneAtATime plainSuper) replicationA1))
           = (ThaliPeerPoolOneAtATime plainSuper, [])
       \<and> enqueue plainSuper (exampleRunningPool\<lparr>stopped := True\<rparr>) replicationA1
           = (Inl (JsError ''We are stopped''), exampleRunningPool\<lparr>stopped := True\<rparr>)
       \<and> \<not> stopped (snd (start plainSuper exampleRunningPool))
       \<and> fst (enqueue plainSuper (snd (start plainSuper exampleRunningPool)) replicationA1)
           = fst (super_enqueue plainSuper
                    (super_state (snd (start plainSuper exampleRunningPool))) replicationA1)
       \<and> fst (enqueue plainSuper (snd (start plainSuper exampleRunningPool)) replicationA1)
           \<noteq> Inl (JsError ''We are stopped''))"
proof -
  have h: "fst (super_enqueue plainSuper
                 (super_state (snd (start plainSuper exampleRunningPool))) replicationA1)
             \<noteq> Inl (JsError ENQUEUE_WHEN_STOPPED)"
    by (simp add: plainSuper_def)
  note concl = enqueue_when_stopped_throws [OF h, of ThrowStallsLane Map.empty]
  show ?thesis
    by (intro conjI h concl [THEN conjunct1] concl [THEN conjunct2])
qed


subsection \<open>The agent handed to start\<close>

text \<open>
  Claim C10. \<^verbatim>\<open>_startAction\<close> constructs one agent and calls the action's start with it:
  keep-alive on, a keep-alive interval of half the configured \<^verbatim>\<open>TCP_TIMEOUT_WIFI\<close>, no
  bound on the sockets, at most 256 free sockets, the configured PSK ciphers, and the PSK
  identity and key that the action returns. \<^verbatim>\<open>_wifiEnqueue\<close> starts an action with
  exactly this agent, or (a replication action whose peer is at count 2) does not start it.
\<close>

theorem startAction_agent_options:
  "agents_of (snd (startAction d a)) =
     [\<lparr>keepAlive = True, keepAliveMsecs = TCP_TIMEOUT_WIFI d / 2, maxSockets = \<infinity>,
       maxFreeSockets = 256, ciphers = SUPPORTED_PSK_CIPHERS d,
       pskIdentity = getPskIdentity a, pskKey = getPskKey a\<rparr>]
 \<and> starts_of (snd (startAction d a)) =
     [(getId a,
       JAgent \<lparr>keepAlive = True, keepAliveMsecs = TCP_TIMEOUT_WIFI d / 2, maxSockets = \<infinity>,
         maxFreeSockets = 256, ciphers = SUPPORTED_PSK_CIPHERS d,
         pskIdentity = getPskIdentity a, pskKey = getPskKey a\<rparr>)]
 \<and> starts_of (snd (snd (snd (wifiEnqueue d s a)))) =
     (if getActionType a = replicationActionType d
         \<and> wifiReplicationCount s (getPeerIdentifier a) = Some 2
      then []
      else [(getId a,
             JAgent \<lparr>keepAlive = True, keepAliveMsecs = TCP_TIMEOUT_WIFI d / 2,
               maxSockets = \<infinity>, maxFreeSockets = 256, ciphers = SUPPORTED_PSK_CIPHERS d,
               pskIdentity = getPskIdentity a, pskKey = getPskKey a\<rparr>)])"
proof -
  have agent: "createAgent d a =
      \<lparr>keepAlive = True, keepAliveMsecs = TCP_TIMEOUT_WIFI d / 2, maxSockets = \<infinity>,
       maxFreeSockets = 256, ciphers = SUPPORTED_PSK_CIPHERS d,
       pskIdentity = getPskIdentity a, pskKey = getPskKey a\<rparr>"
    by (simp add: createAgent_def)
  have wifi: "starts_of (snd (snd (snd (wifiEnqueue d s a)))) =
     (if getActionType a = replicationActionType d
         \<and> wifiReplicationCount s (getPeerIdentifier a) = Some 2
      then [] else [(getId a, JAgent (createAgent d a))])"
  proof (cases "getActionType a = replicationActionType d")
    case False
    then show ?thesis
      by (simp add: wifiEnqueue_other startAction_starts)
  next
    case True
    show ?thesis
    proof (cases "wifiReplicationCount s (getPeerIdentifier a) = Some 2")
      case True
      with \<open>getActionType a = replicationActionType d\<close> show ?thesis
        by (simp add: wifiEnqueue_reject invokeKill_starts)
    next
      case False
      with \<open>getActionType a = replicationActionType d\<close> show ?thesis
        by (simp add: wifiEnqueue_admit starts_of_append startAction_starts)
    qed
  qed
  show ?thesis
    using wifi startAction_agents [of d a] startAction_starts [of d a]
    by (simp add: agent)
qed

subsection \<open>Killing one action more than once\<close>

text \<open>
  Claim C9. Two replication actions of one peer \<open>P\<close>, with distinct identifiers, the
  first with its own kill, are admitted while the count of \<open>P\<close> is absent or 0, \<open>P\<close> not
  being the name of an inherited property: the count is 2. The first action's kill is
  then called three times. The first call leaves the count at 1, the second deletes it,
  although the second action was started and never killed; the third finds no count, logs
  the error and changes nothing. Every call runs the action's own kill.
\<close>

theorem wifi_repeated_kill_decrements_again:
  assumes "getActionType a1 = replicationActionType d"
      and "getActionType a2 = replicationActionType d"
      and "getPeerIdentifier a1 = P"
      and "getPeerIdentifier a2 = P"
      and "kill a1 = OriginalKill"
      and "getId a1 \<noteq> getId a2"
      and "wifiReplicationCount s P = None \<or> wifiReplicationCount s P = Some 0"
      and "P \<notin> set objectPrototype"
  shows "case wifiEnqueue d s a1 of (r1, s1, a1', e1) \<Rightarrow>
         case wifiEnqueue d s1 a2 of (r2, s2, a2', e2) \<Rightarrow>
         case invokeKill (kill a1') (getId a1) (wifiReplicationCount s2) of (c1, k1) \<Rightarrow>
         case invokeKill (kill a1') (getId a1) c1 of (c2, k2) \<Rightarrow>
         case invokeKill (kill a1') (getId a1) c2 of (c3, k3) \<Rightarrow>
           wifiReplicationCount s2 P = Some 2
         \<and> c1 P = Some 1 \<and> k1 = [KillInvoked (getId a1)]
         \<and> c2 P = None \<and> k2 = [KillInvoked (getId a1)]
         \<and> c3 = c2
         \<and> k3 = [LogError [JString ''Count had to be 1 or 2 - '', Undefined],
                 KillInvoked (getId a1)]
         \<and> map fst (starts_of (e1 @ e2)) = [getId a1, getId a2]
         \<and> getId a2 \<notin> set (kills_of (e1 @ e2 @ k1 @ k2 @ k3))"
proof -
  define s1 where "s1 = s\<lparr>wifiReplicationCount := (wifiReplicationCount s)(P \<mapsto> 1)\<rparr>"
  define s2 where "s2 = s1\<lparr>wifiReplicationCount := (wifiReplicationCount s1)(P \<mapsto> 2)\<rparr>"
  have c1: "wifiReplicationCount s1 P = Some 1" and c2: "wifiReplicationCount s2 P = Some 2"
    by (simp_all add: s1_def s2_def)
  have c0: "wifiReplicationCount s P \<noteq> Some 2"
    using assms(7) by auto
  have first: "wifiEnqueue d s a1 =
      (fst (startAction d (a1\<lparr>kill := WifiKillWrapper P OriginalKill\<rparr>)), s1,
       a1\<lparr>kill := WifiKillWrapper P OriginalKill\<rparr>,
       snd (startAction d (a1\<lparr>kill := WifiKillWrapper P OriginalKill\<rparr>)))"
    using assms(1,3,5,7,8) c0 wifiEnqueue_admit [of a1 d s]
    by (auto simp: s1_def readCount_undefined)
  have second: "wifiEnqueue d s1 a2 =
      (fst (startAction d (a2\<lparr>kill := WifiKillWrapper P (kill a2)\<rparr>)), s2,
       a2\<lparr>kill := WifiKillWrapper P (kill a2)\<rparr>,
       snd (startAction d (a2\<lparr>kill := WifiKillWrapper P (kill a2)\<rparr>)))"
    using assms(2,4) c1 wifiEnqueue_admit [of a2 d s1]
    by (simp add: s2_def readCount_undefined)
  show ?thesis
    using assms(6,8)
    by (simp add: first second c2 startAction_starts startAction_kills
        starts_of_append kills_of_append Let_def readCount_def)
qed

text \<open>Claim C9 at the actions a1 and a2 of peer p1, on a pool that was just started.\<close>

theorem wifi_repeated_kill_decrements_again_witness:
  "getActionType replicationA1 = replicationActionType exampleDeps
 \<and> getActionType replicationA2 = replicationActionType exampleDeps
 \<and> getPeerIdentifier replicationA1 = ''p1''
 \<and> getPeerIdentifier replicationA2 = ''p1''
 \<and> kill replicationA1 = OriginalKill
 \<and> getId replicationA1 \<noteq> getId replicationA2
 \<and> (wifiReplicationCount exampleRunningPool ''p1'' = None
      \<or> wifiReplicationCount exampleRunningPool ''p1'' = Some 0)
 \<and> ''p1'' \<notin> set objectPrototype
 \<and> (case wifiEnqueue exampleDeps exampleRunningPool replicationA1 of (r1, s1, a1', e1) \<Rightarrow>
     case wifiEnqueue exampleDeps s1 replicationA2 of (r2, s2, a2', e2) \<Rightarrow>
     case invokeKill (kill a1') (getId replicationA1) (wifiReplicationCount s2) of (c1, k1) \<Rightarrow>
     case invokeKill (kill a1') (getId replicationA1) c1 of (c2, k2) \<Rightarrow>
     case invokeKill (kill a1') (getId replicationA1) c2 of (c3, k3) \<Rightarrow>
           wifiReplicationCount s2 ''p1'' = Some 2
         \<and> c1 ''p1'' = Some 1 \<and> k1 = [KillInvoked (getId replicationA1)]
         \<and> c2 ''p1'' = None \<and> k2 = [KillInvoked (getId replicationA1)]
         \<and> c3 = c2
         \<and> k3 = [LogError [JString ''Count had to be 1 or 2 - '', Undefined],
                 KillInvoked (getId replicationA1)]
         \<and> map fst (starts_of (e1 @ e2)) = [getId replicationA1, getId replicationA2]
         \<and> getId replicationA2 \<notin> set (kills_of (e1 @ e2 @ k1 @ k2 @ k3)))"
proof -
  have h1: "getActionType replicationA1 = replicationActionType exampleDeps"
    and h2: "getActionType replicationA2 = replicationActionType exampleDeps"
    and h3: "getPeerIdentifier replicationA1 = ''p1''"
    and h4: "getPeerIdentifier replicationA2 = ''p1''"
    and h5: "kill replicationA1 = OriginalKill"
    and h6: "getId replicationA1 \<noteq> getId replicationA2"
    by (simp_all add: example_defs)
  have h7: "wifiReplicationCount exampleRunningPool ''p1'' = None
      \<or> wifiReplicationCount exampleRunningPool ''p1'' = Some 0"
    by (simp add: example_defs)
  have h8: "''p1'' \<notin> set objectPrototype"
    by (simp add: objectPrototype_def)
  note concl = wifi_repeated_kill_decrements_again [OF h1 h2 h3 h4 h5 h6 h7 h8]
  show ?thesis
    by (intro conjI h1 h2 h3 h4 h5 h6 h7 h8 concl)
qed

subsection \<open>The unit that \<^verbatim>\<open>enqueue\<close> puts on the promise queue\<close>

text \<open>
  Claim C8. \<^verbatim>\<open>actionAgent\<close> is declared in none of the scopes around the function of
  lines 193-204. So, when the global object has no property of that name, the unit of an
  action accepted by \<open>enqueue\<close> logs that the action started and then raises a
  ReferenceError while evaluating the argument of start; running the promise queue
  afterwards constructs no agent and calls no start, no kill and no resolve, for this
  action and for those queued before it.
\<close>

theorem enqueue_unit_raises_reference_error:
  assumes "globals ''actionAgent'' = None"
      and "\<not> stopped s"
      and "fst (super_enqueue base (super_state s) a) = Inr r"
  shows "''actionAgent'' \<notin> set (concat enqueue_scope_chain)
       \<and> serialPromiseQueue (snd (enqueue base s a)) = serialPromiseQueue s @ [a]
       \<and> serialUnit globals a c =
           (UnitThrew (JsReferenceError ''actionAgent''), c,
            [LogDebug [JString (getId a), JString '' - Peer Action Started'']])
       \<and> agents_of (snd (runSerialPromiseQueue pol globals (snd (enqueue base s a)))) = []
       \<and> starts_of (snd (runSerialPromiseQueue pol globals (snd (enqueue base s a)))) = []
       \<and> kills_of (snd (runSerialPromiseQueue pol globals (snd (enqueue base s a)))) = []
       \<and> resolves_of (snd (runSerialPromiseQueue pol globals (snd (enqueue base s a)))) = []"
proof -
  have scope: "''actionAgent'' \<notin> set (concat enqueue_scope_chain)"
    by (simp add: enqueue_scope_chain_def)
  have queued: "serialPromiseQueue (snd (enqueue base s a)) = serialPromiseQueue s @ [a]"
    using assms(2,3) by (cases "super_enqueue base (super_state s) a") (simp add: enqueue_def)
  have unit: "serialUnit globals a c =
      (UnitThrew (JsReferenceError ''actionAgent''), c,
       [LogDebug [JString (getId a), JString '' - Peer Action Started'']])"
    using assms(1) by (rule serialUnit_unbound)
  have run: "snd (runSerialPromiseQueue pol globals t) = snd (snd (runUnits pol globals
      (serialPromiseQueue t) (wifiReplicationCount t)))" for t :: "'a pool"
    by (simp add: runSerialPromiseQueue_def split_beta)
  show ?thesis
    using scope queued unit
      runUnits_unbound [of globals pol "serialPromiseQueue (snd (enqueue base s a))"
        "wifiReplicationCount (snd (enqueue base s a))", OF assms(1)]
    by (simp add: run)
qed

text \<open>Claim C8 at the action a1, a global object without that property and a pool that was just started.\<close>

theorem enqueue_unit_raises_reference_error_witness:
  "exampleGlobals ''actionAgent'' = None
 \<and> \<not> stopped exampleRunningPool
 \<and> fst (super_enqueue plainSuper (super_state exampleRunningPool) replicationA1) = Inr Null
 \<and> (''actionAgent'' \<notin> set (concat enqueue_scope_chain)
       \<and> serialPromiseQueue (snd (enqueue plainSuper exampleRunningPool replicationA1))
           = serialPromiseQueue exampleRunningPool @ [replicationA1]
       \<and> serialUnit exampleGlobals replicationA1 Map.empty =
           (UnitThrew (JsReferenceError ''actionAgent''), Map.empty,
            [LogDebug [JString (getId replicationA1), JString '' - Peer Action Started'']])
       \<and> agents_of (snd (runSerialPromiseQueue ThrowRejectsUnit exampleGlobals
                 (snd (enqueue plainSuper exampleRunningPool replicationA1)))) = []
       \<and> starts_of (snd (runSerialPromiseQueue ThrowRejectsUnit exampleGlobals
                 (snd (enqueue plainSuper exampleRunningPool replicationA1)))) = []
       \<and> kills_of (snd (runSerialPromiseQueue ThrowRejectsUnit exampleGlobals
                 (snd (enqueue plainSuper exampleRunningPool replicationA1)))) = []
       \<and> resolves_of (snd (runSerialPromiseQueue ThrowRejectsUnit exampleGlobals
                 (snd (enqueue plainSuper exampleRunningPool replicationA1)))) = [])"
proof -
  have h1: "exampleGlobals ''actionAgent'' = None"
    by (simp add: exampleGlobals_def)
  have h2: "\<not> stopped exampleRunningPool"
    and h4: "fst (super_enqueue plainSuper (super_state exampleRunningPool) replicationA1)
               = Inr Null"
    by (simp_all add: exampleRunningPool_def plainSuper_def ThaliPeerPoolOneAtATime_def
        start_def)
  note concl = enqueue_unit_raises_reference_error
    [where globals = exampleGlobals and c = Map.empty and pol = ThrowRejectsUnit,
     OF h1 h2 h4]
  show ?thesis
    using h1 h2 h4 concl by blast
qed

lemma invokeKill_settles: "settles_of (snd (invokeKill k aid c)) = []"
  by (induction k arbitrary: c) (simp_all add: split_beta Let_def)

subsection \<open>Who calls kill on the path of \<^verbatim>\<open>_wifiEnqueue\<close>\<close>

text \<open>
  Claim C1, as amended. On the path of \<^verbatim>\<open>_wifiEnqueue\<close> and \<^verbatim>\<open>_startAction\<close> the pool
  calls kill only on the replication action it rejects at count 2: once, without
  constructing an agent or starting the action, and it returns what that kill returns.
  Every other action it starts, with a new agent, and does not kill. When the start
  throws the exception reaches the caller and nothing follows the call; when the start
  resolves or rejects the pool's promise is fulfilled with null and the one thing that
  follows the settling is a debug log; when the start never settles the promise stays
  pending and nothing follows.
\<close>

theorem wifi_path_kills_only_rejected:
  "case wifiEnqueue d s a of (r, s', a', evs) \<Rightarrow>
     (if getActionType a = replicationActionType d
         \<and> wifiReplicationCount s (getPeerIdentifier a) = Some 2
      then r = Inr (killReturns a)
         \<and> evs = snd (invokeKill (kill a) (getId a) (wifiReplicationCount s))
         \<and> kills_of evs = [getId a]
         \<and> starts_of evs = [] \<and> agents_of evs = [] \<and> settles_of evs = []
      else r = (case startOutcome a of
                  StartThrows e \<Rightarrow> Inl e
                | StartResolves \<Rightarrow> Inr (JPromise (Some Null))
                | StartRejects err \<Rightarrow> Inr (JPromise (Some Null))
                | StartNeverSettles \<Rightarrow> Inr (JPromise None))
         \<and> evs =
             (if getActionType a = replicationActionType d
                 \<and> readCount (wifiReplicationCount s) (getPeerIdentifier a) \<noteq> Undefined
                 \<and> wifiReplicationCount s (getPeerIdentifier a) \<noteq> Some 0
                 \<and> wifiReplicationCount s (getPeerIdentifier a) \<noteq> Some 1
              then [LogError [JString ''We got an illegal count: '',
                      readCount (wifiReplicationCount s) (getPeerIdentifier a)]]
              else [])
             @ [AgentConstructed (createAgent d a),
                StartInvoked (getId a) (JAgent (createAgent d a))]
             @ (case startOutcome a of
                  StartThrows e \<Rightarrow> []
                | StartResolves \<Rightarrow>
                    [StartSettled (getId a),
                     LogDebug [JString ''action returned successfully from start'']]
                | StartRejects err \<Rightarrow>
                    [StartSettled (getId a),
                     LogDebug [JString ''action returned with error from start'', JErr err]]
                | StartNeverSettles \<Rightarrow> [])
         \<and> kills_of evs = [])"
proof -
  have started: "fst (startAction d a) =
        (case startOutcome a of
           StartThrows e \<Rightarrow> Inl e
         | StartResolves \<Rightarrow> Inr (JPromise (Some Null))
         | StartRejects err \<Rightarrow> Inr (JPromise (Some Null))
         | StartNeverSettles \<Rightarrow> Inr (JPromise None))
      \<and> snd (startAction d a) =
        [AgentConstructed (createAgent d a), StartInvoked (getId a) (JAgent (createAgent d a))]
        @ (case startOutcome a of
             StartThrows e \<Rightarrow> []
           | StartResolves \<Rightarrow>
               [StartSettled (getId a),
                LogDebug [JString ''action returned successfully from start'']]
           | StartRejects err \<Rightarrow>
               [StartSettled (getId a),
                LogDebug [JString ''action returned with error from start'', JErr err]]
           | StartNeverSettles \<Rightarrow> [])"
    by (cases "startOutcome a") (simp_all add: startAction_def Let_def)
  show ?thesis
  proof (cases "getActionType a = replicationActionType d")
    case False
    then show ?thesis
      using started startAction_kills [of d a] by (simp add: wifiEnqueue_other)
  next
    case replication: True
    show ?thesis
    proof (cases "wifiReplicationCount s (getPeerIdentifier a) = Some 2")
      case True
      with replication show ?thesis
        by (simp add: wifiEnqueue_reject invokeKill_starts invokeKill_kills invokeKill_settles
            invokeKill_agents)
    next
      case False
      with replication show ?thesis
        using started startAction_kills [of d a]
        by (cases "startOutcome a")
           (simp_all add: wifiEnqueue_admit startAction_kill_update)
    qed
  qed
qed

text \<open>
  Claim C1 as stated fails. On a pool that was just started, \<^verbatim>\<open>_wifiEnqueue\<close> starts
  n1, whose start resolves, and a2, whose start rejects: both starts settle and no kill
  is called. It starts t1, whose start throws: the exception reaches the caller and no
  kill is called.
\<close>

theorem pool_kills_after_start_counterexample:
  "settles_of (snd (snd (snd (wifiEnqueue exampleDeps exampleRunningPool notificationN1)))) = [''n1'']
 \<and> kills_of (snd (snd (snd (wifiEnqueue exampleDeps exampleRunningPool notificationN1)))) = []
 \<and> settles_of (snd (snd (snd (wifiEnqueue exampleDeps exampleRunningPool replicationA2)))) = [''a2'']
 \<and> kills_of (snd (snd (snd (wifiEnqueue exampleDeps exampleRunningPool replicationA2)))) = []
 \<and> fst (wifiEnqueue exampleDeps exampleRunningPool throwingT1) = Inl (JsError ''no radio'')
 \<and> map fst (starts_of (snd (snd (snd (wifiEnqueue exampleDeps exampleRunningPool throwingT1)))))
      = [''t1'']
 \<and> kills_of (snd (snd (snd (wifiEnqueue exampleDeps exampleRunningPool throwingT1)))) = []"
  by (simp add: example_defs throwingT1_def wifiEnqueue_def startAction_def readCount_def
      objectPrototype_def Let_def)

subsection \<open>The serial lane\<close>

text \<open>
  What the unit was written to do is visible where the global object does bind
  \<^verbatim>\<open>actionAgent\<close>: the promise queue then starts and kills the actions one after the
  other in the order of submission, as long as every start settles.
\<close>

lemma invokeKill_lifecycle: "lifecycle_of (snd (invokeKill k aid c)) = [KillInvoked aid]"
  by (induction k arbitrary: c) (simp_all add: split_beta Let_def)

lemma lifecycle_of_append: "lifecycle_of (xs @ ys) = lifecycle_of xs @ lifecycle_of ys"
  by (induction xs rule: lifecycle_of.induct) simp_all

lemma serialUnit_bound:
  assumes "globals ''actionAgent'' = Some v" and "settling (startOutcome a)"
  shows "fst (serialUnit globals a c) = UnitResolved
       \<and> lifecycle_of (snd (snd (serialUnit globals a c)))
           = [StartInvoked (getId a) v, KillInvoked (getId a)]"
  using assms
  by (cases "startOutcome a")
     (simp_all add: serialUnit_def resolveIdentifier_def enqueue_scope_chain_def split_beta
        Let_def lifecycle_of_append invokeKill_lifecycle)

lemma runUnits_bound_fifo:
  assumes "globals ''actionAgent'' = Some v" and "list_all (\<lambda>a. settling (startOutcome a)) q"
  shows "fst (runUnits pol globals q c) = []
       \<and> lifecycle_of (snd (snd (runUnits pol globals q c)))
           = concat (map (\<lambda>a. [StartInvoked (getId a) v, KillInvoked (getId a)]) q)"
  using assms(2)
proof (induction q arbitrary: c)
  case Nil
  show ?case by simp
next
  case (Cons a q)
  from Cons.prems have a: "settling (startOutcome a)"
    and q: "list_all (\<lambda>a. settling (startOutcome a)) q"
    by simp_all
  obtain c' evs where unit: "serialUnit globals a c = (UnitResolved, c', evs)"
    and evs: "lifecycle_of evs = [StartInvoked (getId a) v, KillInvoked (getId a)]"
    using serialUnit_bound [of globals v a c] assms(1) a
    by (cases "serialUnit globals a c") auto
  show ?case
    using Cons.IH [OF q, of c'] evs
    by (simp add: unit split_beta lifecycle_of_append)
qed

text \<open>
  Claim C6 (a1 is started and killed before n1 is started, and n1 before a2), evaluated
  with the global object that has no \<^verbatim>\<open>actionAgent\<close>. The three units are on the lane in
  the order of submission. Run by the promise queue they call no start and no kill: if a
  throwing unit counts as rejected, each unit logs its first line and throws; if the
  lane waits for a unit that threw, only the first unit runs.
\<close>

theorem serial_lane_starts_no_action:
  "serialPromiseQueue examplePoolABC = [replicationA1, notificationN1, replicationA2]
 \<and> snd (runSerialPromiseQueue ThrowRejectsUnit exampleGlobals examplePoolABC) =
      [LogDebug [JString ''a1'', JString '' - Peer Action Started''],
       LogDebug [JString ''n1'', JString '' - Peer Action Started''],
       LogDebug [JString ''a2'', JString '' - Peer Action Started'']]
 \<and> snd (runSerialPromiseQueue ThrowStallsLane exampleGlobals examplePoolABC) =
      [LogDebug [JString ''a1'', JString '' - Peer Action Started'']]
 \<and> lifecycle_of (snd (runSerialPromiseQueue ThrowRejectsUnit exampleGlobals examplePoolABC)) = []
 \<and> lifecycle_of (snd (runSerialPromiseQueue ThrowStallsLane exampleGlobals examplePoolABC)) = []"
  by (simp add: example_defs examplePoolABC_def exampleGlobals_def runSerialPromiseQueue_def
      serialUnit_def resolveIdentifier_def enqueue_scope_chain_def Let_def)

subsection \<open>Which path \<^verbatim>\<open>enqueue\<close> takes\<close>

text \<open>
  Claim C5, as amended. \<open>enqueue\<close> on a running pool reads no medium and never enters
  \<^verbatim>\<open>_wifiEnqueue\<close>: it ends the way the inherited enqueue ends, leaves the flag and the
  replication counts as they were and, unless the inherited enqueue threw, appends the
  action's unit to the promise queue, whatever the action's type and peer.
\<close>

theorem enqueue_always_serial_lane:
  assumes "\<not> stopped s"
  shows "case enqueue base s a of (r, s') \<Rightarrow>
           r = fst (super_enqueue base (super_state s) a)
         \<and> stopped s' = stopped s
         \<and> wifiReplicationCount s' = wifiReplicationCount s
         \<and> serialPromiseQueue s' =
             (case r of Inl e \<Rightarrow> serialPromiseQueue s | Inr v \<Rightarrow> serialPromiseQueue s @ [a])"
  using assms
  by (cases "super_enqueue base (super_state s) a")
     (simp add: enqueue_def split: sum.splits)

text \<open>Claim C5 as amended, at the replication action a1 and a pool that was just started.\<close>

theorem enqueue_always_serial_lane_witness:
  "\<not> stopped exampleRunningPool
 \<and> (case enqueue plainSuper exampleRunningPool replicationA1 of (r, s') \<Rightarrow>
           r = fst (super_enqueue plainSuper (super_state exampleRunningPool) replicationA1)
         \<and> stopped s' = stopped exampleRunningPool
         \<and> wifiReplicationCount s' = wifiReplicationCount exampleRunningPool
         \<and> serialPromiseQueue s' =
             (case r of Inl e \<Rightarrow> serialPromiseQueue exampleRunningPool
                      | Inr v \<Rightarrow> serialPromiseQueue exampleRunningPool @ [replicationA1]))"
proof -
  have h: "\<not> stopped exampleRunningPool"
    by (simp add: exampleRunningPool_def start_def plainSuper_def)
  note concl = enqueue_always_serial_lane [OF h, of plainSuper replicationA1]
  show ?thesis
    by (intro conjI h concl)
qed

text \<open>
  Claim C5 as stated fails. The replication action a1 of peer p1 is of the kind the
  replication counter exists for: \<^verbatim>\<open>_wifiEnqueue\<close> counts it and starts it at once.
  Submitted through \<open>enqueue\<close> it is not counted and not started; it is put on the
  promise queue, exactly as the notification action n1 is.
\<close>

theorem enqueue_routes_by_medium_counterexample:
  "wifiReplicationCount (fst (snd (wifiEnqueue exampleDeps exampleRunningPool replicationA1))) ''p1''
     = Some 1
 \<and> map fst (starts_of (snd (snd (snd (wifiEnqueue exampleDeps exampleRunningPool replicationA1)))))
     = [''a1'']
 \<and> serialPromiseQueue (fst (snd (wifiEnqueue exampleDeps exampleRunningPool replicationA1))) = []
 \<and> wifiReplicationCount (snd (enqueue plainSuper exampleRunningPool replicationA1)) ''p1'' = None
 \<and> serialPromiseQueue (snd (enqueue plainSuper exampleRunningPool replicationA1))
     = [replicationA1]
 \<and> serialPromiseQueue (snd (enqueue plainSuper exampleRunningPool notificationN1))
     = [notificationN1]"
  by (simp add: example_defs wifiEnqueue_def startAction_def readCount_def objectPrototype_def
      Let_def)

subsection \<open>\<^verbatim>\<open>stop\<close>\<close>

text \<open>
  The kills that happen during \<open>stop\<close> are those of the actions that the inherited stop
  kills, and of no other: the body of lines 222-226 calls no kill. Whatever the
  inherited stop kills, and through whatever wrappers, the counts are empty afterwards.
\<close>

lemma stop_kills_what_inherited_stop_kills:
  "kills_of (snd (snd (stop base s))) = map getId (snd (snd (super_stop base (super_state s))))
 \<and> wifiReplicationCount (fst (snd (stop base s))) = Map.empty
 \<and> stopped (fst (snd (stop base s)))"
  using killAll_empty [of "snd (snd (super_stop base (super_state s)))"]
  by (simp add: stop_def Let_def split_beta killAll_kills)



end
